theory Spec2Isabelle
  imports Main "HOL-Library.Word"
begin

section \<open>Go strings\<close>

text \<open>
  A Go string is a sequence of bytes. It is modelled as a \<open>string\<close> (a list of
  8-bit characters); \<open>byte c\<close> is the numeric value of the byte \<open>c\<close>, and
  \<open>length\<close> is Go's \<open>len\<close>.
\<close>

definition byte :: "char \<Rightarrow> nat" where
  "byte c = of_char c"

section \<open>types/ipproto: ResolveProtoName\<close>

subsection \<open>strconv.ParseUint\<close>

text \<open>
  The standard library's \<open>strconv.ParseUint(s, base, bitSize)\<close> for an explicit base
  \<open>2 \<le> base \<le> 36\<close> and \<open>0 < bitSize \<le> 64\<close> (the caller passes 10 and 8): no sign,
  no prefix and no underscore is accepted. The accumulator is a uint64; its wrap-around
  is written out.
\<close>

datatype NumError = ErrSyntax | ErrRange

definition lower :: "nat \<Rightarrow> nat" where
  \<comment> \<open>\<open>lower(c) = c | ('x' - 'X')\<close>\<close>
  "lower c = or c 32"

definition digit_val :: "nat \<Rightarrow> nat option" where
  "digit_val c =
     (if 48 \<le> c \<and> c \<le> 57 then Some (c - 48)
      else if 97 \<le> lower c \<and> lower c \<le> 122 then Some (lower c - 97 + 10)
      else None)"

definition maxUint64 :: nat where
  "maxUint64 = 2 ^ 64 - 1"

fun parse_loop :: "nat \<Rightarrow> nat \<Rightarrow> nat \<Rightarrow> nat \<Rightarrow> nat list \<Rightarrow> NumError + nat" where
  "parse_loop base cutoff maxVal n [] = Inr n"
| "parse_loop base cutoff maxVal n (c # cs) =
     (case digit_val c of
        None \<Rightarrow> Inl ErrSyntax
      | Some d \<Rightarrow>
          if d \<ge> base then Inl ErrSyntax
          else if n \<ge> cutoff then Inl ErrRange
          else
            let n' = (n * base) mod 2 ^ 64;
                n1 = (n' + d) mod 2 ^ 64
            in if n1 < n' \<or> n1 > maxVal then Inl ErrRange
               else parse_loop base cutoff maxVal n1 cs)"

definition ParseUint :: "string \<Rightarrow> nat \<Rightarrow> nat \<Rightarrow> NumError + nat" where
  "ParseUint s base bitSize =
     (if s = [] then Inl ErrSyntax
      else parse_loop base (maxUint64 div base + 1) (2 ^ bitSize - 1) 0 (map byte s))"

subsection \<open>strings.ToLower and the case-insensitive map lookup\<close>

text \<open>
  \<open>strings.ToLower\<close>: a string of ASCII bytes has its letters \<open>A\<close>..\<open>Z\<close> mapped to
  \<open>a\<close>..\<open>z\<close>; any other string is mapped rune by rune through the Unicode case tables,
  which are the parameter \<open>uni\<close>.
\<close>

definition ascii_lower :: "char \<Rightarrow> char" where
  "ascii_lower c = (if 65 \<le> byte c \<and> byte c \<le> 90 then char_of (byte c + 32) else c)"

definition ToLower :: "(string \<Rightarrow> string) \<Rightarrow> string \<Rightarrow> string" where
  "ToLower uni s = (if list_all (\<lambda>c. byte c < 128) s then map ascii_lower s else uni s)"

text \<open>
  \<open>nocasemaps.GetOk(m, k)\<close>. The package \<open>util/nocasemaps\<close> is not among the source
  files; \<open>GetOk\<close> is taken to be what its name and its use here say, the lookup
  \<open>m[strings.ToLower(k)]\<close> in a map whose keys are lower-case.
\<close>

definition GetOk :: "(string \<Rightarrow> string) \<Rightarrow> (string \<times> 'v) list \<Rightarrow> string \<Rightarrow> 'v option" where
  "GetOk uni m k = map_of m (ToLower uni k)"

subsection \<open>The protocol table\<close>

text \<open>
  \<open>type Proto uint8\<close>. The named constants are declared in \<open>ipproto.go\<close>, which is not
  among the source files; their values are the ones the tests of \<open>ProtoPortRange\<close> pair
  with the names (1 icmpv4, 2 igmp, 6 tcp, 17 udp, 0x3a icmpv6, 0x84 sctp) and the one
  the error message of \<open>ResolveProtoName\<close> gives for TSMP (99).
\<close>

type_synonym Proto = "8 word"

definition ICMPv4 :: Proto where "ICMPv4 = 1"
definition IGMP :: Proto where "IGMP = 2"
definition TCP :: Proto where "TCP = 6"
definition UDP :: Proto where "UDP = 17"
definition ICMPv6 :: Proto where "ICMPv6 = 58"
definition SCTP :: Proto where "SCTP = 132"
definition TSMP :: Proto where "TSMP = 99"

definition ipProtoByName :: "(string \<times> Proto) list" where
  "ipProtoByName =
     [(''ah'', 51),
      (''egp'', 8),
      (''esp'', 50),
      (''gre'', 47),
      (''icmp'', ICMPv4),
      (''igmp'', IGMP),
      (''igp'', 9),
      (''ip-in-ip'', 4),
      (''ipv4'', 4),
      (''ipv6-icmp'', ICMPv6),
      (''sctp'', SCTP),
      (''tcp'', TCP),
      (''udp'', UDP)]"

subsection \<open>ResolveProtoName\<close>

datatype vizerror =
    ErrReserved
  | ErrLeadingZero string
  | ErrNotKnown string

definition ResolveProtoName :: "(string \<Rightarrow> string) \<Rightarrow> string \<Rightarrow> Proto \<times> bool \<times> vizerror option" where
  "ResolveProtoName uni s =
     (if s = [] then (0, False, None)
      else
        case ParseUint s 10 8 of
          Inr u \<Rightarrow>
            let p = (of_nat u :: Proto)
            in if p = TSMP then (0, False, Some ErrReserved)
               else if hd s = CHR ''0'' then (0, False, Some (ErrLeadingZero s))
               else (p, True, None)
        | Inl e \<Rightarrow>
            (case GetOk uni ipProtoByName s of
               Some p \<Rightarrow> (p, True, None)
             | None \<Rightarrow> (0, False, Some (ErrNotKnown s))))"

text \<open>The claim's words: a decimal numeral, and its value.\<close>

definition is_digit :: "char \<Rightarrow> bool" where
  "is_digit c \<longleftrightarrow> 48 \<le> byte c \<and> byte c \<le> 57"

definition dec_value :: "string \<Rightarrow> nat" where
  "dec_value s = foldl (\<lambda>n c. 10 * n + (byte c - 48)) 0 s"

definition uint8_numeral :: "string \<Rightarrow> bool" where
  "uint8_numeral s \<longleftrightarrow> s \<noteq> [] \<and> list_all is_digit s \<and> dec_value s \<le> 255"

definition proto_names :: "string list" where
  "proto_names = map fst ipProtoByName"

definition matches_name :: "(string \<Rightarrow> string) \<Rightarrow> string \<Rightarrow> bool" where
  \<comment> \<open>equal to a recognised name up to case\<close>
  "matches_name uni s \<longleftrightarrow> list_ex (\<lambda>n. ToLower uni s = ToLower uni n) proto_names"

definition dec_step :: "nat \<Rightarrow> nat \<Rightarrow> nat" where
  \<comment> \<open>one step of reading a decimal numeral, on byte values\<close>
  "dec_step n c = 10 * n + (c - 48)"

section \<open>taildrop: the Handler and partial files\<close>

text \<open>
  Of the \<open>Handler\<close> only the directory and the two mode flags are data; the logger, the
  clock and the table of incoming files play no part in the functions modelled here.
\<close>

record Handler =
  Dir :: string
  DirectFileMode :: bool
  AvoidFinalRename :: bool

definition partialSuffix :: string where
  "partialSuffix = ''.partial''"

definition deletedSuffix :: string where
  "deletedSuffix = ''.deleted''"

definition HasSuffix :: "string \<Rightarrow> string \<Rightarrow> bool" where
  \<comment> \<open>\<open>strings.HasSuffix(s, suffix)\<close>\<close>
  "HasSuffix s suffix \<longleftrightarrow>
     length s \<ge> length suffix \<and> drop (length s - length suffix) s = suffix"

subsection \<open>resume.go: PartialFiles\<close>

definition ClientID_partialSuffix :: "string \<Rightarrow> string" where
  "ClientID_partialSuffix cid = ''.'' @ cid @ partialSuffix"

text \<open>
  The operating system: \<open>os.Open\<close> is a parameter that gives an error or an open
  directory. An open directory holds the names it has not handed out yet and the read
  failure that follows them, if any. \<open>ReadDir n\<close> with \<open>n > 0\<close> hands out at most \<open>n\<close>
  names with a nil error; once no name is left it returns no name and an error, which
  is \<open>io.EOF\<close> at the end of the directory.
\<close>

datatype os_error = errNoTaildrop | EOF | PathError string

record dir_handle =
  pending :: "string list"
  failure :: "os_error option"

definition ReadDir :: "nat \<Rightarrow> dir_handle \<Rightarrow> string list \<times> os_error option \<times> dir_handle" where
  "ReadDir n f =
     (if pending f = [] then ([], Some (case failure f of None \<Rightarrow> EOF | Some e \<Rightarrow> e), f)
      else (take n (pending f), None, f\<lparr>pending := drop n (pending f)\<rparr>))"

text \<open>
  The \<open>for\<close> loop of \<open>PartialFiles\<close>, in the order the source has it: the test
  \<open>err != nil\<close> comes first, the names of the batch are appended next, and the test
  \<open>err == io.EOF\<close> comes last.
\<close>

function PartialFiles_loop :: "string \<Rightarrow> dir_handle \<Rightarrow> string list \<Rightarrow> string list \<times> os_error option" where
  "PartialFiles_loop suffix f ret =
     (case ReadDir 10 f of
        (des, err, f') \<Rightarrow>
          if err \<noteq> None then (ret, err)
          else
            let ret' = ret @ filter (\<lambda>name. HasSuffix name suffix) des
            in if err = Some EOF then (ret', None)
               else PartialFiles_loop suffix f' ret')"
  by pat_completeness auto
termination
  by (relation "measure (\<lambda>(suffix, f, ret). length (pending f))")
     (auto simp: ReadDir_def split: if_splits)

declare PartialFiles_loop.simps [simp del]

definition PartialFiles ::
  "(string \<Rightarrow> os_error + dir_handle) \<Rightarrow> Handler \<Rightarrow> string \<Rightarrow> string list \<times> os_error option" where
  "PartialFiles os_Open s cid =
     (if Dir s = [] then ([], Some errNoTaildrop)
      else
        case os_Open (Dir s) of
          Inl err \<Rightarrow> ([], Some err)
        | Inr f \<Rightarrow> PartialFiles_loop (ClientID_partialSuffix cid) f [])"

section \<open>The standard library under joinDir\<close>

subsection \<open>unicode/utf8\<close>

text \<open>
  The table \<open>first\<close> of package \<open>utf8\<close> for a leading byte from \<open>0x80\<close> on: the
  length of the encoding and the range accepted for its second byte; \<open>None\<close> for an
  illegal leading byte. The third and the fourth byte are continuation bytes,
  \<open>0x80\<close> to \<open>0xBF\<close>.
\<close>

definition RuneError :: nat where
  "RuneError = 0xFFFD"

definition first_info :: "nat \<Rightarrow> (nat \<times> nat \<times> nat) option" where
  "first_info b =
     (if 0xC2 \<le> b \<and> b \<le> 0xDF then Some (2, 0x80, 0xBF)
      else if b = 0xE0 then Some (3, 0xA0, 0xBF)
      else if 0xE1 \<le> b \<and> b \<le> 0xEC then Some (3, 0x80, 0xBF)
      else if b = 0xED then Some (3, 0x80, 0x9F)
      else if 0xEE \<le> b \<and> b \<le> 0xEF then Some (3, 0x80, 0xBF)
      else if b = 0xF0 then Some (4, 0x90, 0xBF)
      else if 0xF1 \<le> b \<and> b \<le> 0xF3 then Some (4, 0x80, 0xBF)
      else if b = 0xF4 then Some (4, 0x80, 0x8F)
      else None)"

definition is_cont :: "nat \<Rightarrow> bool" where
  "is_cont b \<longleftrightarrow> 0x80 \<le> b \<and> b \<le> 0xBF"

function ValidString :: "string \<Rightarrow> bool" where
  "ValidString s =
     (case s of
        [] \<Rightarrow> True
      | si # t \<Rightarrow>
          if byte si < 0x80 then ValidString t
          else
            case first_info (byte si) of
              None \<Rightarrow> False
            | Some (sz, lo, hi) \<Rightarrow>
                if length s < sz then False
                else if byte (s ! 1) < lo \<or> hi < byte (s ! 1) then False
                else if sz = 2 then ValidString (drop 2 s)
                else if \<not> is_cont (byte (s ! 2)) then False
                else if sz = 3 then ValidString (drop 3 s)
                else if \<not> is_cont (byte (s ! 3)) then False
                else ValidString (drop 4 s))"
  by pat_completeness auto
termination
  by (relation "measure length") auto

declare ValidString.simps [simp del]

text \<open>\<open>utf8.DecodeRuneInString\<close>: the first rune of \<open>s\<close> and its width in bytes.\<close>

definition DecodeRune :: "string \<Rightarrow> nat \<times> nat" where
  "DecodeRune s =
     (case s of
        [] \<Rightarrow> (RuneError, 0)
      | s0 # t \<Rightarrow>
          if byte s0 < 0x80 then (byte s0, 1)
          else
            case first_info (byte s0) of
              None \<Rightarrow> (RuneError, 1)
            | Some (sz, lo, hi) \<Rightarrow>
                if length s < sz then (RuneError, 1)
                else if byte (s ! 1) < lo \<or> hi < byte (s ! 1) then (RuneError, 1)
                else if sz \<le> 2 then (byte s0 mod 32 * 64 + byte (s ! 1) mod 64, 2)
                else if \<not> is_cont (byte (s ! 2)) then (RuneError, 1)
                else if sz \<le> 3 then
                  (byte s0 mod 16 * 4096 + byte (s ! 1) mod 64 * 64 + byte (s ! 2) mod 64, 3)
                else if \<not> is_cont (byte (s ! 3)) then (RuneError, 1)
                else
                  (byte s0 mod 8 * 262144 + byte (s ! 1) mod 64 * 4096
                     + byte (s ! 2) mod 64 * 64 + byte (s ! 3) mod 64, 4))"

text \<open>
  \<open>utf8.DecodeLastRuneInString\<close>: the last rune of \<open>s\<close> and its width. The scan for the
  start of the rune goes back at most \<open>UTFMax = 4\<close> bytes; \<open>k\<close> is \<open>start + 1\<close>.
\<close>

definition RuneStart :: "nat \<Rightarrow> bool" where
  "RuneStart b \<longleftrightarrow> \<not> is_cont b"

fun scan_back :: "string \<Rightarrow> nat \<Rightarrow> nat \<Rightarrow> nat" where
  "scan_back s lim 0 = 0"
| "scan_back s lim (Suc start) =
     (if Suc start \<le> lim then Suc start
      else if RuneStart (byte (s ! start)) then Suc start
      else scan_back s lim start)"

definition DecodeLastRune :: "string \<Rightarrow> nat \<times> nat" where
  "DecodeLastRune s =
     (let n = length s in
      if n = 0 then (RuneError, 0)
      else if byte (s ! (n - 1)) < 0x80 then (byte (s ! (n - 1)), 1)
      else
        let lim = n - 4;
            start = scan_back s lim (n - 1) - 1;
            (r, wid) = DecodeRune (drop start s)
        in if start + wid \<noteq> n then (RuneError, 1) else (r, wid))"

subsection \<open>unicode\<close>

text \<open>
  \<open>unicode.IsSpace\<close>: the white space of Latin-1 and the \<open>White_Space\<close> property beyond
  it.
\<close>

definition IsSpace :: "nat \<Rightarrow> bool" where
  "IsSpace r \<longleftrightarrow>
     (if r \<le> 0xFF then r \<in> {0x09, 0x0A, 0x0B, 0x0C, 0x0D, 0x20, 0x85, 0xA0}
      else r = 0x1680 \<or> (0x2000 \<le> r \<and> r \<le> 0x200A) \<or> r = 0x2028 \<or> r = 0x2029
           \<or> r = 0x202F \<or> r = 0x205F \<or> r = 0x3000)"

text \<open>
  \<open>unicode.IsPrint\<close>: letters, marks, numbers, punctuation, symbols and the ASCII
  space. In Latin-1 these are \<open>0x20\<close> to \<open>0x7E\<close> and \<open>0xA1\<close> to \<open>0xFF\<close> without the soft
  hyphen \<open>0xAD\<close>; beyond Latin-1 the Unicode range tables decide, which are the
  parameter \<open>PrintRanges\<close>.
\<close>

definition IsPrint :: "(nat \<Rightarrow> bool) \<Rightarrow> nat \<Rightarrow> bool" where
  "IsPrint PrintRanges r \<longleftrightarrow>
     (if r \<le> 0xFF then (0x20 \<le> r \<and> r \<le> 0x7E) \<or> (0xA1 \<le> r \<and> r \<noteq> 0xAD)
      else PrintRanges r)"

subsection \<open>strings.TrimSpace\<close>

text \<open>
  \<open>strings.TrimSpace\<close> removes the leading and the trailing white space runes. Its fast
  path for ASCII bytes computes what \<open>TrimLeftFunc\<close> and \<open>TrimRightFunc\<close> with
  \<open>unicode.IsSpace\<close> compute, which is what is modelled: runes are decoded from the
  left for the leading space and from the right for the trailing space.
\<close>

lemma first_info_sz:
  "first_info b = Some (sz, lo, hi) \<Longrightarrow> 2 \<le> sz \<and> sz \<le> 4 \<and> 0x80 \<le> lo \<and> hi \<le> 0xBF"
  by (auto simp: first_info_def split: if_splits)

lemma DecodeRune_size: "s \<noteq> [] \<Longrightarrow> 1 \<le> snd (DecodeRune s) \<and> snd (DecodeRune s) \<le> length s"
proof (cases s)
  case Nil
  assume "s \<noteq> []"
  with Nil show ?thesis by simp
next
  case (Cons a t)
  show ?thesis
  proof (cases "first_info (byte a)")
    case None
    then show ?thesis using Cons by (simp add: DecodeRune_def)
  next
    case (Some x)
    obtain sz lo hi where x: "x = (sz, lo, hi)" by (cases x)
    from Some x have "2 \<le> sz \<and> sz \<le> 4" using first_info_sz by blast
    then show ?thesis using Cons Some x by (auto simp: DecodeRune_def)
  qed
qed

lemma scan_back_le: "scan_back s lim k \<le> k"
  by (induction k) auto

lemma DecodeLastRune_size: "s \<noteq> [] \<Longrightarrow> 1 \<le> snd (DecodeLastRune s) \<and> snd (DecodeLastRune s) \<le> length s"
proof -
  assume ne: "s \<noteq> []"
  then have len: "1 \<le> length s" by (cases s) simp_all
  let ?start = "scan_back s (length s - 4) (length s - 1) - 1"
  obtain r wid where dec: "DecodeRune (drop ?start s) = (r, wid)"
    by (cases "DecodeRune (drop ?start s)")
  have "?start < length s"
    using len scan_back_le[of s "length s - 4" "length s - 1"] by simp
  then have "1 \<le> wid"
    using DecodeRune_size[of "drop ?start s"] dec by simp
  then show ?thesis using ne len dec
    by (auto simp: DecodeLastRune_def Let_def)
qed

lemma DecodeRune_drop: "(r, wid) = DecodeRune s \<Longrightarrow> s \<noteq> [] \<Longrightarrow> length s - wid < length s"
  using DecodeRune_size[of s] by (cases "DecodeRune s") auto

lemma DecodeLastRune_take: "(r, wid) = DecodeLastRune s \<Longrightarrow> s \<noteq> [] \<Longrightarrow> length s - wid < length s"
  using DecodeLastRune_size[of s] by (cases "DecodeLastRune s") auto

function TrimLeft :: "string \<Rightarrow> string" where
  "TrimLeft s =
     (if s = [] then []
      else case DecodeRune s of (r, wid) \<Rightarrow> if IsSpace r then TrimLeft (drop wid s) else s)"
  by pat_completeness auto
termination
  by (relation "measure length") (auto dest: DecodeRune_drop)

function TrimRight :: "string \<Rightarrow> string" where
  "TrimRight s =
     (if s = [] then []
      else case DecodeLastRune s of (r, wid) \<Rightarrow>
             if IsSpace r then TrimRight (take (length s - wid) s) else s)"
  by pat_completeness auto
termination
  by (relation "measure length") (auto dest: DecodeLastRune_take)

declare TrimLeft.simps [simp del] TrimRight.simps [simp del]

definition TrimSpace :: "string \<Rightarrow> string" where
  "TrimSpace s = TrimRight (TrimLeft s)"
subsection \<open>path.Clean\<close>

text \<open>
  \<open>path.Clean\<close>, as the standard library computes it: the path is read from the left,
  \<open>out\<close> is the buffer written so far and \<open>dotdot\<close> the index in \<open>out\<close> that a
  \<open>..\<close> element must not go back beyond. \<open>backtrack out dotdot w\<close> is the loop that
  moves \<open>w\<close> back to the last slash.
\<close>

fun backtrack :: "string \<Rightarrow> nat \<Rightarrow> nat \<Rightarrow> nat" where
  "backtrack out dotdot 0 = 0"
| "backtrack out dotdot (Suc w) =
     (if Suc w > dotdot \<and> out ! Suc w \<noteq> CHR ''/'' then backtrack out dotdot w else Suc w)"

definition dot_elem :: "char \<Rightarrow> string \<Rightarrow> bool" where
  \<comment> \<open>\<open>path[r] == '.' && (r+1 == n || path[r+1] == '/')\<close>, for \<open>path[r:] = c # p\<close>\<close>
  "dot_elem c p \<longleftrightarrow> c = CHR ''.'' \<and> (p = [] \<or> hd p = CHR ''/'')"

definition dotdot_elem :: "char \<Rightarrow> string \<Rightarrow> bool" where
  \<comment> \<open>\<open>path[r] == '.' && path[r+1] == '.' && (r+2 == n || path[r+2] == '/')\<close>; the case
      before has taken \<open>r+1 == n\<close>, so \<open>path[r+1]\<close> exists\<close>
  "dotdot_elem c p \<longleftrightarrow>
     c = CHR ''.'' \<and> p \<noteq> [] \<and> hd p = CHR ''.'' \<and> (tl p = [] \<or> hd (tl p) = CHR ''/'')"

definition add_slash :: "bool \<Rightarrow> string \<Rightarrow> string" where
  \<comment> \<open>\<open>if rooted && out.w != 1 || !rooted && out.w != 0 { out.append('/') }\<close>\<close>
  "add_slash rooted out =
     (if rooted \<and> length out \<noteq> 1 \<or> \<not> rooted \<and> length out \<noteq> 0 then out @ ''/'' else out)"

function clean_loop :: "bool \<Rightarrow> string \<Rightarrow> string \<times> nat \<Rightarrow> string \<times> nat" where
  "clean_loop rooted [] st = st"
| "clean_loop rooted (c # p) (out, dotdot) =
     (if c = CHR ''/'' then
        \<comment> \<open>empty path element\<close>
        clean_loop rooted p (out, dotdot)
      else if dot_elem c p then
        \<comment> \<open>\<open>.\<close> element\<close>
        clean_loop rooted p (out, dotdot)
      else if dotdot_elem c p then
        \<comment> \<open>\<open>..\<close> element: remove to the last slash\<close>
        (if length out > dotdot then
           \<comment> \<open>can backtrack\<close>
           clean_loop rooted (tl p) (take (backtrack out dotdot (length out - 1)) out, dotdot)
         else if \<not> rooted then
           \<comment> \<open>cannot backtrack, but not rooted, so append the \<open>..\<close> element\<close>
           let out' = (if length out > 0 then out @ ''/'' else out) @ ''..''
           in clean_loop rooted (tl p) (out', length out')
         else clean_loop rooted (tl p) (out, dotdot))
      else
        \<comment> \<open>real path element: add a slash if needed, copy the element\<close>
        clean_loop rooted (dropWhile (\<lambda>x. x \<noteq> CHR ''/'') p)
          (add_slash rooted out @ c # takeWhile (\<lambda>x. x \<noteq> CHR ''/'') p, dotdot))"
  by pat_completeness auto
termination
  by (relation "measure (\<lambda>(rooted, p, st). length p)")
     (auto simp: less_Suc_eq_le length_dropWhile_le intro: le_trans[OF diff_le_self])

declare clean_loop.simps [simp del]

definition Clean :: "string \<Rightarrow> string" where
  "Clean path =
     (if path = [] then ''.''
      else
        let rooted = (hd path = CHR ''/'');
            out = fst (if rooted then clean_loop rooted (tl path) (''/'', 1)
                       else clean_loop rooted path ([], 0))
        in if out = [] then ''.'' else out)"

subsection \<open>path/filepath on Unix\<close>

text \<open>
  \<open>filepath.Clean\<close>, \<open>filepath.Join\<close> and \<open>filepath.IsLocal\<close> depend on the operating
  system. They are modelled for Unix, where the separator is the slash, there is no
  volume name and \<open>filepath.Clean\<close> computes what \<open>path.Clean\<close> computes.
\<close>

definition strings_Join :: "string list \<Rightarrow> string \<Rightarrow> string" where
  "strings_Join elems sep = (case elems of [] \<Rightarrow> [] | e # es \<Rightarrow> e @ concat (map (\<lambda>x. sep @ x) es))"

fun filepath_Join :: "string list \<Rightarrow> string" where
  "filepath_Join [] = []"
| "filepath_Join (e # es) =
     (if e \<noteq> [] then Clean (strings_Join (e # es) ''/'') else filepath_Join es)"

text \<open>\<open>strings.Cut(p, "/")\<close> gives the part before the first slash and the rest after it.\<close>

function hasDots :: "string \<Rightarrow> bool" where
  "hasDots p =
     (if p = [] then False
      else
        let part = takeWhile (\<lambda>x. x \<noteq> CHR ''/'') p;
            rest = drop 1 (dropWhile (\<lambda>x. x \<noteq> CHR ''/'') p)
        in if part = ''.'' \<or> part = ''..'' then True else hasDots rest)"
  by pat_completeness auto
termination
proof (relation "measure length", goal_cases)
  case 1
  show ?case by simp
next
  case (2 p part rest)
  have "length (dropWhile (\<lambda>x. x \<noteq> CHR ''/'') p) \<le> length p" by (rule length_dropWhile_le)
  moreover have "dropWhile (\<lambda>x. x \<noteq> CHR ''/'') p = [] \<Longrightarrow> part \<noteq> [] \<Longrightarrow> False \<or> length p > 0"
    using 2 by (cases p) auto
  ultimately show ?case using 2 by (cases "dropWhile (\<lambda>x. x \<noteq> CHR ''/'') p") (auto simp: neq_Nil_conv)
qed

declare hasDots.simps [simp del]

definition HasPrefix :: "string \<Rightarrow> string \<Rightarrow> bool" where
  \<comment> \<open>\<open>strings.HasPrefix(s, prefix)\<close>\<close>
  "HasPrefix s prefix \<longleftrightarrow> length s \<ge> length prefix \<and> take (length prefix) s = prefix"

definition IsLocal :: "string \<Rightarrow> bool" where
  "IsLocal path =
     (if HasPrefix path ''/'' \<or> path = [] then False
      else
        let path' = (if hasDots path then Clean path else path)
        in if path' = ''..'' \<or> HasPrefix path' ''../'' then False else True)"

subsection \<open>taildrop.go: validFilenameRune and joinDir\<close>

definition validFilenameRune :: "(nat \<Rightarrow> bool) \<Rightarrow> nat \<Rightarrow> bool" where
  "validFilenameRune PrintRanges r =
     (if r = byte CHR ''/'' then False
      else if r \<in> {byte CHR 0x5C, byte CHR '':'', byte CHR ''*'', byte CHR 0x22,
                    byte CHR ''<'', byte CHR ''>'', byte CHR ''|''} then False
      else IsPrint PrintRanges r)"

text \<open>
  The loop \<open>for _, r := range baseName\<close>: the runes of the string from the left, a
  byte that starts no valid encoding counting as \<open>RuneError\<close> of width 1; the loop
  returns at the first rune that is not a valid file name rune.
\<close>

function range_valid :: "(nat \<Rightarrow> bool) \<Rightarrow> string \<Rightarrow> bool" where
  "range_valid PrintRanges s =
     (if s = [] then True
      else case DecodeRune s of (r, wid) \<Rightarrow>
             if \<not> validFilenameRune PrintRanges r then False
             else range_valid PrintRanges (drop wid s))"
  by pat_completeness auto
termination
  by (relation "measure (\<lambda>(P, s). length s)") (auto dest: DecodeRune_drop)

declare range_valid.simps [simp del]

definition joinDir :: "(nat \<Rightarrow> bool) \<Rightarrow> Handler \<Rightarrow> string \<Rightarrow> string \<times> bool" where
  "joinDir PrintRanges s baseName =
     (if \<not> ValidString baseName then ([], False)
      else if TrimSpace baseName \<noteq> baseName then ([], False)
      else if length baseName > 255 then ([], False)
      else
        let clean = Clean baseName
        in if clean \<noteq> baseName \<or> clean = ''.'' \<or> clean = ''..''
              \<or> HasSuffix clean deletedSuffix \<or> HasSuffix clean partialSuffix
           then ([], False)
           else if \<not> range_valid PrintRanges baseName then ([], False)
           else if \<not> IsLocal baseName then ([], False)
           else (filepath_Join [Dir s, baseName], True))"
subsection \<open>The conditions of the claim on a base name\<close>

text \<open>The runes of a string, as \<open>range\<close> yields them.\<close>

function runes :: "string \<Rightarrow> nat list" where
  "runes s =
     (if s = [] then []
      else case DecodeRune s of (r, wid) \<Rightarrow> r # runes (drop wid s))"
  by pat_completeness auto
termination
  by (relation "measure length") (auto dest: DecodeRune_drop)

declare runes.simps [simp del]

definition no_outer_space :: "string \<Rightarrow> bool" where
  \<comment> \<open>neither the first nor the last rune is white space\<close>
  "no_outer_space s \<longleftrightarrow>
     s = [] \<or> (\<not> IsSpace (fst (DecodeRune s)) \<and> \<not> IsSpace (fst (DecodeLastRune s)))"

definition forbidden_runes :: "nat list" where
  \<comment> \<open>the runes \<open>/ \ : * " < > |\<close>\<close>
  "forbidden_runes = [0x2F, 0x5C, 0x3A, 0x2A, 0x22, 0x3C, 0x3E, 0x7C]"

definition acceptable :: "(nat \<Rightarrow> bool) \<Rightarrow> string \<Rightarrow> bool" where
  "acceptable PrintRanges baseName \<longleftrightarrow>
     ValidString baseName \<and>
     no_outer_space baseName \<and>
     length baseName \<le> 255 \<and>
     Clean baseName = baseName \<and>
     baseName \<noteq> ''.'' \<and> baseName \<noteq> ''..'' \<and>
     \<not> HasSuffix baseName ''.partial'' \<and> \<not> HasSuffix baseName ''.deleted'' \<and>
     list_all (\<lambda>r. IsPrint PrintRanges r \<and> r \<notin> set forbidden_runes) (runes baseName) \<and>
     IsLocal baseName"

text \<open>
  What ``cannot escape the directory'' means: the name is a single path element, and
  the full path is that element directly under the cleaned directory \<open>d\<close>.
\<close>

definition single_element :: "string \<Rightarrow> bool" where
  "single_element b \<longleftrightarrow> b \<noteq> [] \<and> CHR ''/'' \<notin> set b \<and> b \<noteq> ''.'' \<and> b \<noteq> ''..''"

definition entry_of :: "string \<Rightarrow> string \<Rightarrow> string \<Rightarrow> bool" where
  "entry_of d b full \<longleftrightarrow>
     (d = ''.'' \<and> full = b) \<or> (d = ''/'' \<and> full = ''/'' @ b) \<or> full = d @ ''/'' @ b"

section \<open>derp: the frame codec\<close>

text \<open>
  Modelled from the spec: the frame codec of the relay client (package \<open>derp\<close>) is not
  among the source files; only its test \<open>derphttp_test.go\<close> is. The definitions below
  follow section 4.1 of the specification: \<open>encode\<close> serialises a fixed header (protocol
  magic/version, frame-type tag, big-endian length) followed by the payload; \<open>decode\<close>
  reads the header, rejects a declared length over the protocol maximum with
  \<open>FrameTooLarge\<close> before it reads the payload, then reads exactly that many bytes; an
  unknown frame type decodes like any other. The specification gives no widths and no
  constants: the tag is taken as one byte and the length as four bytes, and the magic
  bytes and the maximum (a value of the length field) are parameters of the protocol.
\<close>

type_synonym octet = "8 word"

record protocol =
  magic :: "octet list"
  maxFrameSize :: "32 word"

datatype codec_error = FrameTooLarge | TransportError | ProtocolError

fun to_be :: "nat \<Rightarrow> nat \<Rightarrow> octet list" where
  \<comment> \<open>the \<open>w\<close> low bytes of \<open>n\<close>, most significant first\<close>
  "to_be 0 n = []"
| "to_be (Suc w) n = to_be w (n div 256) @ [of_nat (n mod 256)]"

definition from_be :: "octet list \<Rightarrow> nat" where
  "from_be bs = foldl (\<lambda>acc b. acc * 256 + unat b) 0 bs"

definition headerLen :: "protocol \<Rightarrow> nat" where
  "headerLen p = length (magic p) + 1 + 4"

text \<open>
  Modelled from the spec: \<open>encode(type, payload)\<close> of the frame codec, which is missing
  from the source files: ``serializes a fixed header (protocol magic/version, frame-type
  tag, big-endian length) followed by payload''.
\<close>

definition encode :: "protocol \<Rightarrow> octet \<Rightarrow> octet list \<Rightarrow> octet list" where
  "encode p ty payload = magic p @ [ty] @ to_be 4 (length payload) @ payload"

text \<open>
  Modelled from the spec: \<open>decode(stream)\<close> of the frame codec, which is missing from
  the source files: ``reads the header, rejects with \<open>FrameTooLarge\<close> if the declared
  length exceeds the protocol maximum before allocating or reading the payload, then
  reads exactly that many bytes''. \<open>decode\<close> takes the bytes still to come on the stream
  and returns its result together with the bytes it has not read. A stream that ends
  inside the header or inside the payload is an I/O failure; a header that does not
  start with the magic bytes is a malformed frame.
\<close>

definition decode :: "protocol \<Rightarrow> octet list \<Rightarrow> (codec_error + octet \<times> octet list) \<times> octet list" where
  "decode p stream =
     (if length stream < headerLen p then (Inl TransportError, [])
      else
        let hdr = take (headerLen p) stream;
            rest = drop (headerLen p) stream
        in if take (length (magic p)) hdr \<noteq> magic p then (Inl ProtocolError, rest)
           else
             let ty = hdr ! length (magic p);
                 n = from_be (drop (length (magic p) + 1) hdr)
             in if n > unat (maxFrameSize p) then (Inl FrameTooLarge, rest)
                else if length rest < n then (Inl TransportError, [])
                else (Inr (ty, take n rest), drop n rest))"

section \<open>Properties of ResolveProtoName\<close>

subsection \<open>ParseUint in base 10 with 8 bits\<close>

lemma digit_val_lt10: "digit_val c = Some d \<Longrightarrow> d < 10 \<longleftrightarrow> (48 \<le> c \<and> c \<le> 57)"
  by (auto simp: digit_val_def split: if_splits)

lemma digit_val_digit: "48 \<le> c \<Longrightarrow> c \<le> 57 \<Longrightarrow> digit_val c = Some (c - 48)"
  by (simp add: digit_val_def)

lemma foldl_dec_mono: "n \<le> foldl dec_step n cs"
proof (induction cs arbitrary: n)
  case Nil
  show ?case by simp
next
  case (Cons c cs)
  have "n \<le> dec_step n c" by (simp add: dec_step_def)
  also have "\<dots> \<le> foldl dec_step (dec_step n c) cs" by (rule Cons.IH)
  finally show ?case by simp
qed

text \<open>
  With an accumulator that fits 8 bits the uint64 arithmetic never wraps and the cutoff
  is never reached: the loop accepts exactly the digit strings whose value stays
  at most 255.
\<close>

lemma parse_loop_dec:
  "n \<le> 255 \<Longrightarrow>
   parse_loop 10 (maxUint64 div 10 + 1) 255 n cs = Inr m \<longleftrightarrow>
     (list_all (\<lambda>c. 48 \<le> c \<and> c \<le> 57) cs \<and> foldl dec_step n cs \<le> 255 \<and> m = foldl dec_step n cs)"
proof (induction cs arbitrary: n)
  case Nil
  then show ?case by auto
next
  case (Cons c cs)
  show ?case
  proof (cases "48 \<le> c \<and> c \<le> 57")
    case False
    then have "parse_loop 10 (maxUint64 div 10 + 1) 255 n (c # cs) = Inl ErrSyntax"
      using digit_val_lt10[of c] by (cases "digit_val c") auto
    then show ?thesis using False by (auto simp del: parse_loop.simps)
  next
    case True
    then have dv: "digit_val c = Some (c - 48)" by (simp add: digit_val_digit)
    have small: "\<not> maxUint64 div 10 + 1 \<le> n" using Cons.prems by (simp add: maxUint64_def)
    have c9: "c - 48 < 10" using True by arith
    have nowrap: "(n * 10) mod 2 ^ 64 = n * 10" "((n * 10) + (c - 48)) mod 2 ^ 64 = n * 10 + (c - 48)"
      using Cons.prems c9 by simp_all
    have step: "parse_loop 10 (maxUint64 div 10 + 1) 255 n (c # cs) =
        (if dec_step n c > 255 then Inl ErrRange
         else parse_loop 10 (maxUint64 div 10 + 1) 255 (dec_step n c) cs)"
      using dv small c9 nowrap by (simp add: dec_step_def Let_def mult.commute)
    show ?thesis
    proof (cases "dec_step n c \<le> 255")
      case le: True
      then show ?thesis using True step Cons.IH[OF le] by simp
    next
      case gt: False
      have "dec_step n c \<le> foldl dec_step (dec_step n c) cs" by (rule foldl_dec_mono)
      then show ?thesis using True step gt by simp
    qed
  qed
qed

lemma foldl_dec_step_map:
  "foldl dec_step n (map byte s) = foldl (\<lambda>n c. 10 * n + (byte c - 48)) n s"
  by (induction s arbitrary: n) (simp_all add: dec_step_def)

lemma ParseUint_10_8:
  "ParseUint s 10 8 = Inr m \<longleftrightarrow> uint8_numeral s \<and> m = dec_value s"
proof (cases "s = []")
  case True
  then show ?thesis by (simp add: ParseUint_def uint8_numeral_def)
next
  case False
  have "ParseUint s 10 8 = parse_loop 10 (maxUint64 div 10 + 1) 255 0 (map byte s)"
    using False by (simp add: ParseUint_def)
  moreover have "list_all (\<lambda>c. 48 \<le> c \<and> c \<le> 57) (map byte s) = list_all is_digit s"
    by (simp add: list_all_iff is_digit_def)
  ultimately show ?thesis
    using False parse_loop_dec[of 0 "map byte s" m]
    by (simp add: uint8_numeral_def dec_value_def foldl_dec_step_map)
qed

lemma Proto_of_nat_TSMP: "u \<le> 255 \<Longrightarrow> (of_nat u :: Proto) = TSMP \<longleftrightarrow> u = 99"
proof -
  assume u: "u \<le> 255"
  have "unat (of_nat u :: Proto) = u" using u by (simp add: unat_of_nat)
  moreover have "unat TSMP = 99" by (simp add: TSMP_def)
  ultimately show ?thesis by (auto simp: word_unat_eq_iff)
qed

subsection \<open>The name lookup\<close>

lemma ascii_lower_digit: "is_digit c \<Longrightarrow> ascii_lower c = c"
  by (simp add: ascii_lower_def is_digit_def)

lemma ToLower_digits: "list_all is_digit s \<Longrightarrow> ToLower uni s = s"
proof -
  assume d: "list_all is_digit s"
  then have "list_all (\<lambda>c. byte c < 128) s"
    by (auto simp: list_all_iff is_digit_def)
  moreover have "map ascii_lower s = s"
    using d by (induction s) (simp_all add: ascii_lower_digit)
  ultimately show ?thesis by (simp add: ToLower_def)
qed

lemma ToLower_proto_names: "n \<in> set proto_names \<Longrightarrow> ToLower uni n = n"
  by (auto simp: proto_names_def ipProtoByName_def ToLower_def ascii_lower_def byte_def)

lemma proto_names_hd: "n \<in> set proto_names \<Longrightarrow> \<not> is_digit (hd n)"
  by (auto simp: proto_names_def ipProtoByName_def is_digit_def byte_def)

lemma matches_name_iff: "matches_name uni s \<longleftrightarrow> ToLower uni s \<in> set proto_names"
  by (auto simp: matches_name_def list_ex_iff ToLower_proto_names)

lemma GetOk_ipProtoByName:
  "GetOk uni ipProtoByName s = None \<longleftrightarrow> \<not> matches_name uni s"
  by (simp add: GetOk_def matches_name_iff proto_names_def map_of_eq_None_iff)

text \<open>A numeral is never a protocol name: every name starts with a letter.\<close>

lemma numeral_not_name: "uint8_numeral s \<Longrightarrow> \<not> matches_name uni s"
proof
  assume n: "uint8_numeral s" and m: "matches_name uni s"
  from n have "ToLower uni s = s" by (simp add: uint8_numeral_def ToLower_digits)
  with m have "s \<in> set proto_names" by (simp add: matches_name_iff)
  then have "\<not> is_digit (hd s)" by (rule proto_names_hd)
  moreover from n have "is_digit (hd s)" by (cases s) (simp_all add: uint8_numeral_def)
  ultimately show False by simp
qed

text \<open>
  Claim C10. \<open>ResolveProtoName s\<close> returns \<open>ok = true\<close> exactly when \<open>s\<close> is a non-empty
  decimal numeral that parses as an 8-bit unsigned integer, is not 99 (TSMP) and does
  not start with the digit \<open>0\<close>, or \<open>s\<close> equals one of the recognised protocol names up
  to case. For the empty string the result is \<open>(0, false, nil)\<close>; every other failure
  carries an error, and a success carries none.
\<close>

theorem ResolveProtoName_ok:
  "case ResolveProtoName uni s of (p, ok, err) \<Rightarrow>
     (ok \<longleftrightarrow> (uint8_numeral s \<and> dec_value s \<noteq> 99 \<and> hd s \<noteq> CHR ''0'') \<or> matches_name uni s) \<and>
     (s = [] \<longrightarrow> p = 0 \<and> \<not> ok \<and> err = None) \<and>
     (s \<noteq> [] \<and> \<not> ok \<longrightarrow> err \<noteq> None) \<and>
     (ok \<longrightarrow> err = None)"
proof (cases "s = []")
  case True
  have "\<not> matches_name uni []"
    by (simp add: matches_name_iff ToLower_def proto_names_def ipProtoByName_def)
  then show ?thesis using True by (simp add: ResolveProtoName_def uint8_numeral_def)
next
  case ne: False
  show ?thesis
  proof (cases "ParseUint s 10 8")
    case (Inr u)
    then have num: "uint8_numeral s" and u: "u = dec_value s" by (simp_all add: ParseUint_10_8)
    from num have "u \<le> 255" by (simp add: uint8_numeral_def u)
    then have "(of_nat u :: Proto) = TSMP \<longleftrightarrow> dec_value s = 99" by (simp add: Proto_of_nat_TSMP u)
    then show ?thesis
      using ne Inr num numeral_not_name[OF num, of uni]
      by (simp add: ResolveProtoName_def Let_def)
  next
    case (Inl e)
    then have "\<not> uint8_numeral s" using ParseUint_10_8[of s "dec_value s"] by auto
    then show ?thesis
      using ne Inl GetOk_ipProtoByName[of uni s]
      by (cases "GetOk uni ipProtoByName s") (simp_all add: ResolveProtoName_def)
  qed
qed

text \<open>
  The theorem at three inputs: \<open>099\<close> is a failure with an error, \<open>Tcp\<close> a success
  without one, and the empty string gives protocol 0.
\<close>

theorem ResolveProtoName_ok_witness:
  "''099'' \<noteq> [] \<and> \<not> fst (snd (ResolveProtoName id ''099'')) \<and>
   snd (snd (ResolveProtoName id ''099'')) \<noteq> None \<and>
   fst (snd (ResolveProtoName id ''Tcp'')) \<and> snd (snd (ResolveProtoName id ''Tcp'')) = None \<and>
   fst (ResolveProtoName id []) = 0"
  using ResolveProtoName_ok [where uni = id and s = "''099''"]
    ResolveProtoName_ok [where uni = id and s = "''Tcp''"]
    ResolveProtoName_ok [where uni = id and s = "[]"]
  by (simp add: ResolveProtoName_def ParseUint_def byte_def digit_val_def lower_def maxUint64_def
      GetOk_def ToLower_def ascii_lower_def ipProtoByName_def TCP_def TSMP_def char_of_def bit_0)

section \<open>Properties of PartialFiles\<close>

text \<open>
  The loop always ends in the branch \<open>err != nil\<close>: it returns the matching names of
  the whole directory together with the error of the last \<open>ReadDir\<close>, which is
  \<open>io.EOF\<close> when nothing failed.
\<close>

lemma PartialFiles_loop_result:
  "PartialFiles_loop suffix f ret =
     (ret @ filter (\<lambda>name. HasSuffix name suffix) (pending f),
      Some (case failure f of None \<Rightarrow> EOF | Some e \<Rightarrow> e))"
proof (induction suffix f ret rule: PartialFiles_loop.induct)
  case (1 suffix f ret)
  show ?case
  proof (cases "pending f = []")
    case True
    then show ?thesis by (subst PartialFiles_loop.simps) (simp add: ReadDir_def Let_def)
  next
    case False
    let ?f' = "f\<lparr>pending := drop 10 (pending f)\<rparr>"
    have rd: "ReadDir 10 f = (take 10 (pending f), None, ?f')"
      using False by (simp add: ReadDir_def)
    have "PartialFiles_loop suffix f ret =
        PartialFiles_loop suffix ?f' (ret @ filter (\<lambda>name. HasSuffix name suffix) (take 10 (pending f)))"
      by (subst PartialFiles_loop.simps) (simp add: rd Let_def)
    also have "\<dots> = (ret @ filter (\<lambda>name. HasSuffix name suffix) (take 10 (pending f))
                       @ filter (\<lambda>name. HasSuffix name suffix) (drop 10 (pending f)),
                     Some (case failure f of None \<Rightarrow> EOF | Some e \<Rightarrow> e))"
      using "1.IH"[OF rd[symmetric] refl] by simp
    also have "filter (\<lambda>name. HasSuffix name suffix) (take 10 (pending f))
                 @ filter (\<lambda>name. HasSuffix name suffix) (drop 10 (pending f))
               = filter (\<lambda>name. HasSuffix name suffix) (pending f)"
      by (simp flip: filter_append)
    finally show ?thesis .
  qed
qed

text \<open>
  A directory that opens and is read to its end without a failure: the names are the
  ones the claim says, and the error is \<open>io.EOF\<close>, never nil.
\<close>

lemma PartialFiles_full_read:
  assumes "Dir s \<noteq> []" and "os_Open (Dir s) = Inr f" and "failure f = None"
  shows "PartialFiles os_Open s cid =
           (filter (\<lambda>name. HasSuffix name (''.'' @ cid @ ''.partial'')) (pending f), Some EOF)"
  using assms
  by (simp add: PartialFiles_def PartialFiles_loop_result ClientID_partialSuffix_def partialSuffix_def)

text \<open>
  Claim C9 says that a full read without an I/O failure returns a nil error. The code
  returns \<open>io.EOF\<close>: in a directory holding \<open>a.n1.partial\<close> and \<open>b.txt\<close>, the first
  \<open>ReadDir\<close> gives both names, the second gives \<open>io.EOF\<close>, and the test
  \<open>err != nil\<close> returns it before the test \<open>err == io.EOF\<close> is reached.
\<close>

theorem PartialFiles_returns_EOF:
  "PartialFiles (\<lambda>d. Inr \<lparr>pending = [''a.n1.partial'', ''b.txt''], failure = None\<rparr>)
       \<lparr>Dir = ''/in'', DirectFileMode = False, AvoidFinalRename = False\<rparr> ''n1''
     = ([''a.n1.partial''], Some EOF)"
  by (simp add: PartialFiles_def PartialFiles_loop.simps ReadDir_def ClientID_partialSuffix_def
      partialSuffix_def HasSuffix_def)

section \<open>Properties of joinDir\<close>

subsection \<open>Runes\<close>

lemma validFilenameRune_iff:
  "validFilenameRune P r \<longleftrightarrow> IsPrint P r \<and> r \<notin> set forbidden_runes"
  by (simp add: validFilenameRune_def forbidden_runes_def byte_def)

lemma range_valid_runes:
  "range_valid P s \<longleftrightarrow> list_all (\<lambda>r. IsPrint P r \<and> r \<notin> set forbidden_runes) (runes s)"
proof (induction P s rule: range_valid.induct)
  case (1 P s)
  show ?case
  proof (cases "s = []")
    case True
    then show ?thesis by (simp add: range_valid.simps runes.simps)
  next
    case False
    obtain r wid where d: "DecodeRune s = (r, wid)" by (cases "DecodeRune s")
    show ?thesis
    proof (cases "validFilenameRune P r")
      case True
      then have "range_valid P s = range_valid P (drop wid s)"
        using False d by (subst range_valid.simps) simp
      also have "\<dots> = list_all (\<lambda>r. IsPrint P r \<and> r \<notin> set forbidden_runes) (runes (drop wid s))"
        using "1.IH"[OF False d[symmetric]] True by simp
      finally show ?thesis
        using False d True by (subst runes.simps) (simp add: validFilenameRune_iff)
    next
      case no: False
      then have "\<not> range_valid P s"
        using False d by (subst range_valid.simps) simp
      then show ?thesis
        using False d no by (subst runes.simps) (simp add: validFilenameRune_iff)
    qed
  qed
qed

text \<open>An ASCII byte is never part of a longer encoding: it is a rune of its own.\<close>

lemma DecodeRune_ascii_byte:
  assumes "DecodeRune s = (r, wid)" and "c \<in> set (take wid s)" and "byte c < 0x80"
  shows "r = byte c"
proof (cases s)
  case Nil
  with assms show ?thesis by simp
next
  case (Cons a t)
  show ?thesis
  proof (cases "byte a < 0x80")
    case True
    with assms Cons show ?thesis by (auto simp: DecodeRune_def)
  next
    case hi: False
    show ?thesis
    proof (cases "first_info (byte a)")
      case None
      with assms Cons hi show ?thesis by (auto simp: DecodeRune_def)
    next
      case (Some x)
      obtain sz lo hi' where x: "x = (sz, lo, hi')" by (cases x)
      from Some x have b: "2 \<le> sz" "sz \<le> 4" "0x80 \<le> lo" using first_info_sz by blast+
      from assms(2) obtain i where i: "i < wid" "i < length s" "c = s ! i"
        by (auto simp: in_set_conv_nth)
      have "i = 0 \<or> i = 1 \<or> i = 2 \<or> i = 3 \<or> 4 \<le> i" by arith
      then show ?thesis
        using assms(1,3) Cons hi Some x b i
        by (auto simp: DecodeRune_def is_cont_def split: if_splits)
    qed
  qed
qed

lemma range_valid_no_slash: "range_valid P s \<Longrightarrow> CHR ''/'' \<notin> set s"
proof (induction P s rule: range_valid.induct)
  case (1 P s)
  show ?case
  proof (cases "s = []")
    case True
    then show ?thesis by simp
  next
    case False
    obtain r wid where d: "DecodeRune s = (r, wid)" by (cases "DecodeRune s")
    from "1.prems" False d have v: "validFilenameRune P r" and rest: "range_valid P (drop wid s)"
      by (subst (asm) range_valid.simps, simp split: if_splits)+
    have "CHR ''/'' \<notin> set (drop wid s)"
      using "1.IH"[OF False d[symmetric] _ rest] v by simp
    moreover have "CHR ''/'' \<notin> set (take wid s)"
    proof
      assume "CHR ''/'' \<in> set (take wid s)"
      then have "r = byte CHR ''/''" using DecodeRune_ascii_byte[OF d] by (simp add: byte_def)
      with v show False by (simp add: validFilenameRune_def)
    qed
    ultimately show ?thesis
      using set_append[of "take wid s" "drop wid s"] by (simp del: set_append)
  qed
qed

subsection \<open>TrimSpace\<close>

lemma TrimLeft_length: "length (TrimLeft s) \<le> length s"
proof (induction s rule: TrimLeft.induct)
  case (1 s)
  show ?case
  proof (cases "s = []")
    case True
    then show ?thesis by (simp add: TrimLeft.simps)
  next
    case False
    obtain r wid where d: "DecodeRune s = (r, wid)" by (cases "DecodeRune s")
    show ?thesis
    proof (cases "IsSpace r")
      case True
      have "length (TrimLeft (drop wid s)) \<le> length (drop wid s)"
        using "1.IH"[OF False d[symmetric] True] .
      then show ?thesis using False d True by (subst TrimLeft.simps) simp
    next
      case no: False
      then show ?thesis using False d by (subst TrimLeft.simps) simp
    qed
  qed
qed

lemma TrimLeft_fixed:
  "TrimLeft s = s \<longleftrightarrow> s = [] \<or> \<not> IsSpace (fst (DecodeRune s))"
proof (cases "s = []")
  case True
  then show ?thesis by (simp add: TrimLeft.simps)
next
  case False
  obtain r wid where d: "DecodeRune s = (r, wid)" by (cases "DecodeRune s")
  show ?thesis
  proof (cases "IsSpace r")
    case True
    have "length (TrimLeft (drop wid s)) \<le> length s - wid"
      using TrimLeft_length[of "drop wid s"] by simp
    also have "\<dots> < length s" using DecodeRune_drop[OF d[symmetric] False] .
    finally have "length (TrimLeft s) < length s"
      using False d True by (subst TrimLeft.simps) simp
    then have "TrimLeft s \<noteq> s" by auto
    then show ?thesis using False d True by simp
  next
    case no: False
    then have "TrimLeft s = s" using False d by (subst TrimLeft.simps) simp
    then show ?thesis using False d no by simp
  qed
qed

lemma TrimRight_length: "length (TrimRight s) \<le> length s"
proof (induction s rule: TrimRight.induct)
  case (1 s)
  show ?case
  proof (cases "s = []")
    case True
    then show ?thesis by (simp add: TrimRight.simps)
  next
    case False
    obtain r wid where d: "DecodeLastRune s = (r, wid)" by (cases "DecodeLastRune s")
    show ?thesis
    proof (cases "IsSpace r")
      case True
      have "length (TrimRight (take (length s - wid) s)) \<le> length (take (length s - wid) s)"
        using "1.IH"[OF False d[symmetric] True] .
      then show ?thesis using False d True by (subst TrimRight.simps) simp
    next
      case no: False
      then show ?thesis using False d by (subst TrimRight.simps) simp
    qed
  qed
qed

lemma TrimRight_fixed:
  "TrimRight s = s \<longleftrightarrow> s = [] \<or> \<not> IsSpace (fst (DecodeLastRune s))"
proof (cases "s = []")
  case True
  then show ?thesis by (simp add: TrimRight.simps)
next
  case False
  obtain r wid where d: "DecodeLastRune s = (r, wid)" by (cases "DecodeLastRune s")
  show ?thesis
  proof (cases "IsSpace r")
    case True
    have "length (TrimRight (take (length s - wid) s)) \<le> length s - wid"
      using TrimRight_length[of "take (length s - wid) s"] by simp
    also have "\<dots> < length s" using DecodeLastRune_take[OF d[symmetric] False] .
    finally have "length (TrimRight s) < length s"
      using False d True by (subst TrimRight.simps) simp
    then have "TrimRight s \<noteq> s" by auto
    then show ?thesis using False d True by simp
  next
    case no: False
    then have "TrimRight s = s" using False d by (subst TrimRight.simps) simp
    then show ?thesis using False d no by simp
  qed
qed

lemma TrimSpace_fixed: "TrimSpace s = s \<longleftrightarrow> no_outer_space s"
proof
  assume eq: "TrimSpace s = s"
  have "length s = length (TrimRight (TrimLeft s))" using eq by (simp add: TrimSpace_def)
  also have "\<dots> \<le> length (TrimLeft s)" by (rule TrimRight_length)
  finally have "length (TrimLeft s) = length s" using TrimLeft_length[of s] by simp
  have l: "TrimLeft s = s"
  proof (rule ccontr)
    assume ne: "TrimLeft s \<noteq> s"
    then have s: "s \<noteq> []" and sp: "IsSpace (fst (DecodeRune s))"
      using TrimLeft_fixed[of s] by auto
    obtain r wid where d: "DecodeRune s = (r, wid)" by (cases "DecodeRune s")
    have "length (TrimLeft (drop wid s)) \<le> length s - wid"
      using TrimLeft_length[of "drop wid s"] by simp
    also have "\<dots> < length s" using DecodeRune_drop[OF d[symmetric] s] .
    finally have "length (TrimLeft s) < length s"
      using s d sp by (subst TrimLeft.simps) simp
    with \<open>length (TrimLeft s) = length s\<close> show False by simp
  qed
  then have "TrimRight s = s" using eq by (simp add: TrimSpace_def)
  with l show "no_outer_space s"
    by (auto simp: no_outer_space_def TrimLeft_fixed TrimRight_fixed)
next
  assume "no_outer_space s"
  then have "TrimLeft s = s" "TrimRight s = s"
    by (auto simp: no_outer_space_def TrimLeft_fixed TrimRight_fixed)
  then show "TrimSpace s = s" by (simp add: TrimSpace_def)
qed

subsection \<open>path.Clean\<close>

lemma backtrack_ge: "dotdot \<le> w \<Longrightarrow> dotdot \<le> backtrack out dotdot w"
  by (induction w) (auto simp: le_Suc_eq)

lemma takeWhile_slash_append:
  "takeWhile (\<lambda>x. x \<noteq> CHR ''/'') (p @ CHR ''/'' # q) = takeWhile (\<lambda>x. x \<noteq> CHR ''/'') p"
  by (induction p) simp_all

lemma dropWhile_slash_append:
  "dropWhile (\<lambda>x. x \<noteq> CHR ''/'') (p @ CHR ''/'' # q) = dropWhile (\<lambda>x. x \<noteq> CHR ''/'') p @ CHR ''/'' # q"
  by (induction p) simp_all

lemma hd_append_Cons: "hd (xs @ y # ys) = (if xs = [] then y else hd xs)"
  by (cases xs) simp_all

lemma dot_elem_append: "dot_elem c (p @ CHR ''/'' # q) = dot_elem c p"
  by (simp add: dot_elem_def hd_append_Cons)

lemma dotdot_elem_append: "dotdot_elem c (p @ CHR ''/'' # q) = dotdot_elem c p"
  by (cases p) (auto simp: dotdot_elem_def hd_append_Cons)

lemma clean_loop_slash: "clean_loop rooted (CHR ''/'' # q) st = clean_loop rooted q st"
  by (cases st) (simp add: clean_loop.simps)

text \<open>A slash is an element boundary: the loop reads what is before it, then what is after it.\<close>

lemma clean_loop_append:
  "clean_loop rooted (p @ CHR ''/'' # q) st = clean_loop rooted q (clean_loop rooted p st)"
proof (induction rooted p st rule: clean_loop.induct)
  case (1 rooted st)
  show ?case by (simp add: clean_loop_slash clean_loop.simps)
next
  case (2 rooted c p out dotdot)
  let ?pq = "p @ CHR ''/'' # q"
  note l = clean_loop.simps(2)[of rooted c ?pq out dotdot]
  note r = clean_loop.simps(2)[of rooted c p out dotdot]
  have tl_pq: "dotdot_elem c p \<Longrightarrow> tl ?pq = tl p @ CHR ''/'' # q"
    by (cases p) (simp_all add: dotdot_elem_def)
  have goal: "clean_loop rooted (c # ?pq) (out, dotdot) =
              clean_loop rooted q (clean_loop rooted (c # p) (out, dotdot))"
  proof (cases "c = CHR ''/''")
    case True
    show ?thesis unfolding l r using True "2.IH"(1) by simp
  next
    case nslash: False
    show ?thesis
    proof (cases "dot_elem c p")
      case True
      show ?thesis unfolding l r using nslash True "2.IH"(2) by (simp add: dot_elem_append)
    next
      case ndot: False
      show ?thesis
      proof (cases "dotdot_elem c p")
        case True
        show ?thesis
        proof (cases "length out > dotdot")
          case big: True
          show ?thesis unfolding l r
            using nslash ndot True big "2.IH"(3)
            by (simp add: dot_elem_append dotdot_elem_append tl_pq)
        next
          case small: False
          show ?thesis
          proof (cases rooted)
            case rt: True
            show ?thesis unfolding l r
              using nslash ndot True small rt "2.IH"(5)
              by (simp add: dot_elem_append dotdot_elem_append tl_pq)
          next
            case nrt: False
            show ?thesis unfolding l r
              using nslash ndot True small nrt "2.IH"(4)[OF nslash ndot True small nrt refl]
              by (simp add: dot_elem_append dotdot_elem_append tl_pq Let_def)
          qed
        qed
      next
        case nd: False
        show ?thesis unfolding l r
          using nslash ndot nd "2.IH"(6)
          by (simp add: dot_elem_append dotdot_elem_append takeWhile_slash_append dropWhile_slash_append)
      qed
    qed
  qed
  then show ?case by simp
qed

lemma clean_loop_single:
  assumes "single_element b"
  shows "clean_loop rooted b (out, dotdot) = (add_slash rooted out @ b, dotdot)"
proof -
  from assms obtain c p where b: "b = c # p" by (cases b) (auto simp: single_element_def)
  from assms b have c: "c \<noteq> CHR ''/''" and p: "CHR ''/'' \<notin> set p"
    by (auto simp: single_element_def)
  have nd: "\<not> dot_elem c p"
    using assms b p by (cases p) (auto simp: dot_elem_def single_element_def)
  have ndd: "\<not> dotdot_elem c p"
  proof
    assume "dotdot_elem c p"
    then obtain t where "c = CHR ''.''" "p = CHR ''.'' # t" "t = [] \<or> hd t = CHR ''/''"
      by (cases p) (auto simp: dotdot_elem_def)
    then show False using assms b p by (cases t) (auto simp: single_element_def)
  qed
  have tw: "takeWhile (\<lambda>x. x \<noteq> CHR ''/'') p = p" "dropWhile (\<lambda>x. x \<noteq> CHR ''/'') p = []"
    using p by (auto simp: takeWhile_eq_all_conv)
  show ?thesis
    unfolding b clean_loop.simps(2)[of rooted c p out dotdot]
    using c nd ndd by (simp add: tw clean_loop.simps(1))
qed

text \<open>Under a root the buffer keeps its leading slash.\<close>

lemma clean_loop_rooted:
  "rooted \<Longrightarrow> out \<noteq> [] \<Longrightarrow> hd out = CHR ''/'' \<Longrightarrow> dotdot = 1 \<Longrightarrow>
   clean_loop rooted p (out, dotdot) = (out', dotdot') \<Longrightarrow>
   out' \<noteq> [] \<and> hd out' = CHR ''/''"
proof (induction rooted p "(out, dotdot)" arbitrary: out dotdot rule: clean_loop.induct)
  case (1 rooted)
  then show ?case by (simp add: clean_loop.simps)
next
  case (2 rooted c p out dotdot)
  note r = clean_loop.simps(2)[of rooted c p out dotdot]
  show ?case
  proof (cases "c = CHR ''/''")
    case True
    then show ?thesis using "2.hyps"(1) "2.prems" unfolding r by simp
  next
    case nslash: False
    show ?thesis
    proof (cases "dot_elem c p")
      case True
      then show ?thesis using nslash "2.hyps"(2) "2.prems" unfolding r by simp
    next
      case ndot: False
      show ?thesis
      proof (cases "dotdot_elem c p")
        case True
        show ?thesis
        proof (cases "length out > dotdot")
          case big: True
          let ?w = "backtrack out dotdot (length out - 1)"
          have "1 \<le> ?w" using backtrack_ge[of dotdot "length out - 1" out] big "2.prems"(4) by simp
          then have "take ?w out \<noteq> []" "hd (take ?w out) = CHR ''/''"
            using "2.prems"(2,3) by (cases out; cases ?w; simp)+
          then show ?thesis
            using nslash ndot True big "2.hyps"(3)[OF nslash ndot True big] "2.prems"
            unfolding r by simp
        next
          case small: False
          then show ?thesis
            using nslash ndot True "2.hyps"(5)[OF nslash ndot True small] "2.prems"
            unfolding r by simp
        qed
      next
        case nd: False
        have "add_slash rooted out @ c # takeWhile (\<lambda>x. x \<noteq> CHR ''/'') p \<noteq> []"
             "hd (add_slash rooted out @ c # takeWhile (\<lambda>x. x \<noteq> CHR ''/'') p) = CHR ''/''"
          using "2.prems"(2,3) by (auto simp: add_slash_def hd_append)
        then show ?thesis
          using nslash ndot nd "2.hyps"(6)[OF nslash ndot nd] "2.prems"
          unfolding r by simp
      qed
    qed
  qed
qed

subsection \<open>joinDir\<close>

lemma Clean_Nil: "Clean [] = ''.''"
  by (simp add: Clean_def)

text \<open>
  Joining a single element to a directory: the result is that element directly under
  the cleaned directory.
\<close>

lemma Clean_dir_entry:
  assumes b: "single_element b" and dir: "dir \<noteq> []"
  shows "entry_of (Clean dir) b (Clean (dir @ ''/'' @ b))"
proof -
  from b have bne: "b \<noteq> []" by (simp add: single_element_def)
  have hd_eq: "hd (dir @ ''/'' @ b) = hd dir" and tl_eq: "tl (dir @ ''/'' @ b) = tl dir @ CHR ''/'' # b"
    using dir by (cases dir; simp)+
  show ?thesis
  proof (cases "hd dir = CHR ''/''")
    case True
    obtain out dd where st: "clean_loop True (tl dir) (''/'', 1) = (out, dd)"
      by (cases "clean_loop True (tl dir) (''/'', 1)")
    have inv: "out \<noteq> [] \<and> hd out = CHR ''/''"
      by (rule clean_loop_rooted[OF _ _ _ _ st]) simp_all
    have cd: "Clean dir = out"
      using dir True st inv by (simp add: Clean_def)
    have "clean_loop True (tl dir @ CHR ''/'' # b) (''/'', 1) = (add_slash True out @ b, dd)"
      by (simp only: clean_loop_append st clean_loop_single[OF b])
    then have full: "Clean (dir @ ''/'' @ b) = add_slash True out @ b"
      using dir True bne by (simp add: Clean_def hd_eq tl_eq)
    show ?thesis
    proof (cases "length out = 1")
      case True
      with inv have "out = ''/''" by (cases out) auto
      then show ?thesis using cd full by (simp add: entry_of_def add_slash_def)
    next
      case False
      then show ?thesis using cd full by (simp add: entry_of_def add_slash_def)
    qed
  next
    case False
    obtain out dd where st: "clean_loop False dir ([], 0) = (out, dd)"
      by (cases "clean_loop False dir ([], 0)")
    have cd: "Clean dir = (if out = [] then ''.'' else out)"
      using dir False st by (simp add: Clean_def)
    have "clean_loop False (dir @ CHR ''/'' # b) ([], 0) = (add_slash False out @ b, dd)"
      by (simp only: clean_loop_append st clean_loop_single[OF b])
    then have full: "Clean (dir @ ''/'' @ b) = add_slash False out @ b"
      using dir False bne by (simp add: Clean_def hd_eq)
    show ?thesis using cd full by (cases "out = []") (simp_all add: entry_of_def add_slash_def)
  qed
qed

lemma acceptable_single_element:
  assumes "acceptable P b"
  shows "single_element b"
proof -
  from assms have "range_valid P b" by (simp add: acceptable_def range_valid_runes)
  then have "CHR ''/'' \<notin> set b" by (rule range_valid_no_slash)
  moreover have "b \<noteq> []" using assms Clean_Nil by (auto simp: acceptable_def)
  ultimately show ?thesis using assms by (simp add: single_element_def acceptable_def)
qed

lemma joinDir_eq:
  "joinDir P s b = (if acceptable P b then (filepath_Join [Dir s, b], True) else ([], False))"
  by (auto simp: joinDir_def acceptable_def TrimSpace_fixed range_valid_runes Let_def
        deletedSuffix_def partialSuffix_def)

lemma Join_entry:
  assumes "acceptable P b"
  shows "entry_of (Clean d) b (filepath_Join [d, b])"
proof (cases "d = []")
  case True
  have "b \<noteq> []" using acceptable_single_element[OF assms] by (simp add: single_element_def)
  moreover have "Clean b = b" using assms by (simp add: acceptable_def)
  ultimately show ?thesis using True by (simp add: strings_Join_def Clean_Nil entry_of_def)
next
  case False
  then have "filepath_Join [d, b] = Clean (d @ ''/'' @ b)" by (simp add: strings_Join_def)
  then show ?thesis using Clean_dir_entry[OF acceptable_single_element[OF assms] False] by simp
qed

text \<open>
  Claim C8. \<open>joinDir\<close> returns \<open>ok = true\<close> exactly for the base names that are valid
  UTF-8, have no leading or trailing white space, are at most 255 bytes long, equal
  their own \<open>path.Clean\<close>, are neither \<open>.\<close> nor \<open>..\<close>, do not end in \<open>.partial\<close> or
  \<open>.deleted\<close>, consist of printable runes other than \<open>/ \ : * " < > |\<close>, and are local
  paths; for every other base name it returns \<open>ok = false\<close>. The path returned with
  \<open>ok = true\<close> is \<open>filepath.Join(s.Dir, baseName)\<close>, and it cannot escape the
  directory: the base name is a single path element, and the path is that element
  directly under the cleaned directory.
\<close>

theorem joinDir_accepts:
  "joinDir P s b = (if acceptable P b then (filepath_Join [Dir s, b], True) else ([], False)) \<and>
   (acceptable P b \<longrightarrow>
      single_element b \<and> entry_of (Clean (Dir s)) b (filepath_Join [Dir s, b]))"
  using joinDir_eq acceptable_single_element Join_entry by blast

text \<open>
  The theorem at the name \<open>foo\<close> and the directory \<open>/in\<close>: the name is acceptable, and
  the result is \<open>/in/foo\<close>.
\<close>

theorem joinDir_accepts_witness:
  "acceptable (\<lambda>r. True) ''foo'' \<and> single_element ''foo'' \<and>
   joinDir (\<lambda>r. True) \<lparr>Dir = ''/in'', DirectFileMode = False, AvoidFinalRename = False\<rparr> ''foo''
     = (''/in/foo'', True) \<and>
   entry_of (Clean ''/in'') ''foo'' ''/in/foo''"
proof -
  have acc: "acceptable (\<lambda>r. True) ''foo''"
    by (simp add: acceptable_def ValidString.simps no_outer_space_def DecodeRune_def DecodeLastRune_def
        IsSpace_def byte_def Clean_def clean_loop.simps dot_elem_def dotdot_elem_def add_slash_def
        HasSuffix_def runes.simps IsPrint_def forbidden_runes_def IsLocal_def HasPrefix_def hasDots.simps)
  have j: "filepath_Join [''/in'', ''foo''] = ''/in/foo''"
    by (simp add: strings_Join_def Clean_def clean_loop.simps dot_elem_def dotdot_elem_def add_slash_def)
  show ?thesis
    using joinDir_accepts [where P = "\<lambda>r. True" and b = "''foo''"
        and s = "\<lparr>Dir = ''/in'', DirectFileMode = False, AvoidFinalRename = False\<rparr>"] acc j
    by simp
qed

section \<open>Properties of the frame codec\<close>

lemma length_to_be: "length (to_be w n) = w"
  by (induction w arbitrary: n) simp_all

lemma from_be_snoc: "from_be (bs @ [b]) = from_be bs * 256 + unat b"
  by (simp add: from_be_def)

lemma from_be_to_be: "from_be (to_be w n) = n mod 256 ^ w"
proof (induction w arbitrary: n)
  case 0
  show ?case by (simp add: from_be_def)
next
  case (Suc w)
  have "unat (of_nat (n mod 256) :: octet) = n mod 256"
    by (simp add: unat_of_nat)
  then have "from_be (to_be (Suc w) n) = (n div 256) mod 256 ^ w * 256 + n mod 256"
    by (simp add: from_be_snoc Suc.IH)
  also have "\<dots> = n mod 256 ^ Suc w"
    by (simp add: mod_mult2_eq)
  finally show ?case .
qed

lemma decode_header:
  assumes "length lenb = 4"
  shows "decode p (magic p @ [ty] @ lenb @ rest) =
           (if from_be lenb > unat (maxFrameSize p) then (Inl FrameTooLarge, rest)
            else if length rest < from_be lenb then (Inl TransportError, [])
            else (Inr (ty, take (from_be lenb) rest), drop (from_be lenb) rest))"
  using assms by (simp add: decode_def headerLen_def Let_def nth_append)

text \<open>
  Claim C5. For every frame type and every payload whose length is at most the
  protocol maximum, decoding the bytes that \<open>encode\<close> produces gives back the type and
  the payload, and leaves what follows the frame on the stream unread.
\<close>

theorem decode_encode:
  assumes "length payload \<le> unat (maxFrameSize p)"
  shows "decode p (encode p ty payload @ tail) = (Inr (ty, payload), tail)"
proof -
  have "unat (maxFrameSize p) < 2 ^ 32" using unsigned_less[of "maxFrameSize p"] by simp
  with assms have "length payload < 256 ^ 4" by simp
  then have n: "from_be (to_be 4 (length payload)) = length payload"
    by (simp only: from_be_to_be mod_less)
  have "decode p (magic p @ [ty] @ to_be 4 (length payload) @ (payload @ tail)) =
          (Inr (ty, payload), tail)"
    using assms by (subst decode_header) (simp_all only: length_to_be n, simp_all)
  then show ?thesis by (simp add: encode_def)
qed

theorem decode_encode_witness:
  "length [1, 2, 3 :: octet] \<le> unat (maxFrameSize \<lparr>magic = [68, 69], maxFrameSize = 65536\<rparr>) \<and>
   decode \<lparr>magic = [68, 69], maxFrameSize = 65536\<rparr>
     (encode \<lparr>magic = [68, 69], maxFrameSize = 65536\<rparr> 4 [1, 2, 3] @ [])
     = (Inr (4, [1, 2, 3]), [])"
  using decode_encode [of "[1, 2, 3]" "\<lparr>magic = [68, 69], maxFrameSize = 65536\<rparr>" 4 "[]"]
  by simp

text \<open>
  When the header declares a payload length over the protocol maximum, \<open>decode\<close> fails
  with \<open>FrameTooLarge\<close> and has read the header only: every byte after the header is
  still on the stream, whether or not the declared payload is there.
\<close>

lemma decode_rejects_oversized:
  assumes "length lenb = 4" and "from_be lenb > unat (maxFrameSize p)"
  shows "decode p (magic p @ [ty] @ lenb @ rest) = (Inl FrameTooLarge, rest)"
  using assms(2) by (simp only: decode_header[OF assms(1)] if_True)

end
